theory Spec2Isabelle
  imports Complex_Main "HOL-Library.List_Lexorder" "HOL-Library.Char_ord"
begin

section \<open>Python values and exceptions\<close>

text \<open>
  The script \<open>scripts/update_coffee_embeddings.py\<close> is embedded function by function.
  Python floats are modelled as \<open>real\<close> (idealised arithmetic, no rounding), Python
  \<open>str\<close> as \<open>string\<close> compared lexicographically, as Python compares strings.
  An exception is a value: a function that may raise returns \<open>exc + 'a\<close>. The class
  hierarchy matters, because \<open>except Exception\<close> does not catch \<open>KeyboardInterrupt\<close>
  or \<open>SystemExit\<close>.
\<close>

datatype exc =
    KeyboardInterrupt
  | SystemExit int
  | ZeroDivisionError
  | ValueError
  | TypeError
  | EOFError
  | ServiceError

fun is_Exception :: "exc \<Rightarrow> bool" where
  "is_Exception KeyboardInterrupt = False"
| "is_Exception (SystemExit _) = False"
| "is_Exception _ = True"

definition VECTOR_DIMENSIONS :: nat where
  "VECTOR_DIMENSIONS = 1536"

definition BATCH_SIZE :: int where
  "BATCH_SIZE = 5"

section \<open>Strings\<close>

definition lower_char :: "char \<Rightarrow> char" where
  "lower_char c =
     (let n = (of_char c :: nat) in if 65 \<le> n \<and> n \<le> 90 then char_of (n + 32) else c)"

text \<open>\<open>str.lower\<close>, on the ASCII letters.\<close>

definition lower :: "string \<Rightarrow> string" where
  "lower s = map lower_char s"

text \<open>\<open>needle in haystack\<close> for strings: the substring test.\<close>

fun contains :: "string \<Rightarrow> string \<Rightarrow> bool" where
  "contains needle [] = (needle = [])"
| "contains needle (c # rest) =
     (take (length needle) (c # rest) = needle \<or> contains needle rest)"

text \<open>\<open>str(n)\<close> for a non-negative integer: its decimal digits.\<close>

definition digit_char :: "nat \<Rightarrow> char" where
  "digit_char d = char_of (48 + d)"

fun str_nat :: "nat \<Rightarrow> string" where
  "str_nat n = (if n < 10 then [digit_char n] else str_nat (n div 10) @ [digit_char (n mod 10)])"

declare str_nat.simps [simp del]

section \<open>Fallback embedding generator\<close>

text \<open>
  The dictionary \<open>flavor_map\<close>, in insertion order (the order in which Python iterates
  over it).
\<close>

definition flavor_map :: "(string \<times> real list) list" where
  "flavor_map =
    [(''fruity'',    [0.8, 0.2, 0.1, 0.0, 0.3]),
     (''chocolate'', [0.2, 0.9, 0.4, 0.1, 0.1]),
     (''nutty'',     [0.3, 0.5, 0.8, 0.2, 0.1]),
     (''floral'',    [0.7, 0.1, 0.2, 0.1, 0.6]),
     (''spicy'',     [0.4, 0.2, 0.7, 0.5, 0.3]),
     (''sweet'',     [0.5, 0.6, 0.3, 0.1, 0.2]),
     (''bitter'',    [0.1, 0.4, 0.5, 0.8, 0.1]),
     (''acidic'',    [0.6, 0.2, 0.1, 0.7, 0.4])]"

text \<open>
  The inner \<open>for flavor, vector in flavor_map.items()\<close>: the first keyword found in the
  lowered tag updates the base vector and breaks; \<open>None\<close> is \<open>matched = False\<close>.
\<close>

fun match_flavor :: "(string \<times> real list) list \<Rightarrow> string \<Rightarrow> real list \<Rightarrow> real list option" where
  "match_flavor [] tag_lower base_vector = None"
| "match_flavor ((flavor, vector) # rest) tag_lower base_vector =
     (if contains flavor tag_lower
      then Some (map2 (\<lambda>base flavor_val. base + 0.5 * flavor_val) base_vector vector)
      else match_flavor rest tag_lower base_vector)"

text \<open>The loop \<open>for tag in flavor_tags\<close>.\<close>

fun add_tags :: "string list \<Rightarrow> real list \<Rightarrow> real list" where
  "add_tags [] base_vector = base_vector"
| "add_tags (tag # tags) base_vector =
     add_tags tags
       (case match_flavor flavor_map (lower tag) base_vector of
          Some v \<Rightarrow> v
        | None \<Rightarrow> map (\<lambda>val. val + 0.05) base_vector)"

definition magnitude_of :: "real list \<Rightarrow> real" where
  "magnitude_of base_vector = sqrt (sum_list (map (\<lambda>val. val ^ 2) base_vector))"

text \<open>
  \<open>[val / magnitude for val in base_vector]\<close>: each division raises
  \<open>ZeroDivisionError\<close> when the magnitude is zero.
\<close>

fun normalize :: "real list \<Rightarrow> real \<Rightarrow> exc + real list" where
  "normalize [] magnitude = Inr []"
| "normalize (val # vals) magnitude =
     (if magnitude = 0 then Inl ZeroDivisionError
      else case normalize vals magnitude of
             Inl e \<Rightarrow> Inl e
           | Inr rest \<Rightarrow> Inr (val / magnitude # rest))"

text \<open>
  The positional factor \<open>0.95 + (hash(str(len(full_embedding))) % 10) / 100\<close>. The
  interpreter's string hash is a parameter: CPython salts it per process.
\<close>

definition variation_factor :: "(string \<Rightarrow> int) \<Rightarrow> nat \<Rightarrow> real" where
  "variation_factor str_hash n = 0.95 + real_of_int (str_hash (str_nat n) mod 10) / 100"

text \<open>
  The inner \<open>for val in normalized\<close> of the expansion, with its \<open>break\<close> once the
  vector is full.
\<close>

fun fill_pass :: "(string \<Rightarrow> int) \<Rightarrow> real list \<Rightarrow> real list \<Rightarrow> real list" where
  "fill_pass str_hash [] full_embedding = full_embedding"
| "fill_pass str_hash (val # vals) full_embedding =
     (let variation = val * variation_factor str_hash (length full_embedding);
          full_embedding' = full_embedding @ [variation]
      in if length full_embedding' \<ge> VECTOR_DIMENSIONS then full_embedding'
         else fill_pass str_hash vals full_embedding')"

text \<open>
  The outer \<open>while len(full_embedding) < VECTOR_DIMENSIONS\<close>. It does not return when
  \<open>normalized\<close> is empty, so it is a partial function: \<open>None\<close> is "runs forever".
\<close>

partial_function (option) expand :: "(string \<Rightarrow> int) \<Rightarrow> real list \<Rightarrow> real list \<Rightarrow> real list option" where
  "expand str_hash normalized full_embedding =
     (if length full_embedding < VECTOR_DIMENSIONS
      then expand str_hash normalized (fill_pass str_hash normalized full_embedding)
      else Some full_embedding)"

definition generate_fallback_embedding :: "(string \<Rightarrow> int) \<Rightarrow> string list \<Rightarrow> (exc + real list) option" where
  "generate_fallback_embedding str_hash flavor_tags =
     (let base_vector = add_tags flavor_tags (replicate 5 0.1);
          magnitude = magnitude_of base_vector
      in case normalize base_vector magnitude of
           Inl e \<Rightarrow> Some (Inl e)
         | Inr normalized \<Rightarrow>
             (case expand str_hash normalized [] of
                None \<Rightarrow> None
              | Some full_embedding \<Rightarrow> Some (Inr (take VECTOR_DIMENSIONS full_embedding))))"

text \<open>
  Two auxiliary notions for stating what the generator computes: the normalised
  five-component vector of a tag sequence, and the value the expansion puts at position
  \<open>i\<close>.
\<close>

definition unit_vector :: "string list \<Rightarrow> real list" where
  "unit_vector flavor_tags =
     (let base_vector = add_tags flavor_tags (replicate 5 0.1)
      in map (\<lambda>val. val / magnitude_of base_vector) base_vector)"

definition pattern_at :: "(string \<Rightarrow> int) \<Rightarrow> real list \<Rightarrow> nat \<Rightarrow> real" where
  "pattern_at str_hash normalized i =
     normalized ! (i mod length normalized) * variation_factor str_hash i"

text \<open>Three sample string hashes, as three processes with different salts may have.\<close>

definition hash_seed_a :: "string \<Rightarrow> int" where
  "hash_seed_a s = 0"

definition hash_seed_b :: "string \<Rightarrow> int" where
  "hash_seed_b s = 5"

definition hash_seed_c :: "string \<Rightarrow> int" where
  "hash_seed_c s = 10"

section \<open>Catalog records and the outside world\<close>

text \<open>
  A row of the \<open>coffees\<close> table, as the dictionary the gateway returns for
  \<open>select('*')\<close>. A column that is null (or a key \<open>dict.get\<close> does not find) is
  \<open>None\<close>. Timestamps arrive as strings and the script compares them as strings.
\<close>

record coffee =
  coffee_id :: nat
  coffee_name :: "string option"
  coffee_flavor_tags :: "string list option"
  coffee_created_at :: "string option"
  coffee_updated_at :: "string option"
  coffee_flavor_embedding :: "real list option"

text \<open>Command-line arguments, after \<open>argparse\<close>.\<close>

record args =
  arg_supabase_url :: "string option"
  arg_supabase_key :: "string option"
  arg_openai_key :: "string option"
  arg_force_all :: bool
  arg_batch_size :: int
  arg_dry_run :: bool

text \<open>
  Everything the script reads from outside, as the answers it gets: the process
  environment, the interpreter's string hash, the gateway's two tables and its update
  procedure, the embedding service, the float formatter and the operator's answer at the
  prompt. An answer \<open>Inl e\<close> (or \<open>Some e\<close> for \<open>create_client\<close>) is the call raising
  \<open>e\<close>. The pacing calls to \<open>time.sleep\<close> and the log lines other than the
  missing-tags warning are left out.
\<close>

record env =
  environ :: "string \<Rightarrow> string option"
  py_hash :: "string \<Rightarrow> int"
  create_client :: "string \<Rightarrow> string \<Rightarrow> exc option"
  coffees_table :: "exc + coffee list"
  update_logs_table :: "exc + string option list"
  embeddings_create :: "string \<Rightarrow> exc + real list"
  rpc_execute :: "nat \<Rightarrow> string \<Rightarrow> exc + bool"
  float_str :: "real \<Rightarrow> string"
  stdin_input :: "exc + string"

text \<open>Python truthiness of an optional string or list, and \<open>a or b\<close>.\<close>

definition truthy :: "'a list option \<Rightarrow> bool" where
  "truthy v = (case v of None \<Rightarrow> False | Some xs \<Rightarrow> xs \<noteq> [])"

definition py_or :: "'a list option \<Rightarrow> 'a list option \<Rightarrow> 'a list option" where
  "py_or a b = (if truthy a then a else b)"

text \<open>\<open>s > t\<close> for a string \<open>s\<close>: a \<open>TypeError\<close> when \<open>t\<close> is \<open>None\<close>.\<close>

fun py_gt :: "string \<Rightarrow> string option \<Rightarrow> exc + bool" where
  "py_gt s None = Inl TypeError"
| "py_gt s (Some t) = Inr (t < s)"

text \<open>\<open>sep.join(parts)\<close>.\<close>

fun join :: "string \<Rightarrow> string list \<Rightarrow> string" where
  "join sep [] = []"
| "join sep [x] = x"
| "join sep (x # y # rest) = x @ sep @ join sep (y # rest)"

section \<open>Client initialisation\<close>

definition initialize_clients :: "env \<Rightarrow> args \<Rightarrow> exc + bool" where
  "initialize_clients e a =
     (let supabase_url = py_or (arg_supabase_url a) (environ e ''SUPABASE_URL'');
          supabase_key = py_or (arg_supabase_key a) (environ e ''SUPABASE_KEY'');
          openai_key = py_or (arg_openai_key a) (environ e ''OPENAI_API_KEY'')
      in case (supabase_url, supabase_key) of
           (Some url, Some key) \<Rightarrow>
             if url = [] \<or> key = [] then Inl (SystemExit 1)
             else (let has_openai = truthy openai_key
                   in case create_client e url key of
                        None \<Rightarrow> Inr has_openai
                      | Some x \<Rightarrow> if is_Exception x then Inl (SystemExit 1) else Inl x)
         | _ \<Rightarrow> Inl (SystemExit 1))"

section \<open>Change detector\<close>

text \<open>
  The loop \<open>for coffee in coffees\<close> that fills \<open>need_update\<close>. The comparison with
  the last update time raises when that time is \<open>None\<close>.
\<close>

fun need_update_loop :: "string option \<Rightarrow> coffee list \<Rightarrow> coffee list \<Rightarrow> exc + coffee list" where
  "need_update_loop last_update_time [] need_update = Inr need_update"
| "need_update_loop last_update_time (c # coffees) need_update =
     (let coffee_updated = py_or (coffee_updated_at c) (coffee_created_at c)
      in case (case coffee_updated of
                 None \<Rightarrow> Inr False
               | Some u \<Rightarrow> if u = [] then Inr False else py_gt u last_update_time) of
           Inl x \<Rightarrow> Inl x
         | Inr True \<Rightarrow> need_update_loop last_update_time coffees (need_update @ [c])
         | Inr False \<Rightarrow>
             if \<not> truthy (coffee_flavor_embedding c)
             then need_update_loop last_update_time coffees (need_update @ [c])
             else need_update_loop last_update_time coffees need_update)"

definition get_coffee_data :: "env \<Rightarrow> bool \<Rightarrow> exc + coffee list" where
  "get_coffee_data e force_all =
     (case coffees_table e of
        Inl x \<Rightarrow> if is_Exception x then Inr [] else Inl x
      | Inr coffees \<Rightarrow>
          if coffees = [] then Inr []
          else if force_all then Inr coffees
          else (case update_logs_table e of
                  Inl x \<Rightarrow> if is_Exception x then Inr coffees else Inl x
                | Inr [] \<Rightarrow> Inr coffees
                | Inr (last_update_time # _) \<Rightarrow>
                    (case need_update_loop last_update_time coffees [] of
                       Inl x \<Rightarrow> if is_Exception x then Inr [] else Inl x
                     | Inr need_update \<Rightarrow> Inr need_update)))"

section \<open>Primary generator and the per-record update\<close>

definition generate_openai_embedding :: "env \<Rightarrow> string list \<Rightarrow> exc + real list option" where
  "generate_openai_embedding e flavor_tags =
     (let text = join '', '' flavor_tags
      in case embeddings_create e text of
           Inl x \<Rightarrow> if is_Exception x then Inr None else Inl x
         | Inr embedding \<Rightarrow>
             if length embedding \<noteq> VECTOR_DIMENSIONS then Inr None else Inr (Some embedding))"

text \<open>What one call of \<open>update_coffee_embedding\<close> does to the outside, in order.\<close>

datatype event =
    NoTagsWarning nat
  | PrimaryCall "string list"
  | FallbackCall "string list"
  | RpcCall nat string

definition encode :: "(real \<Rightarrow> string) \<Rightarrow> real list \<Rightarrow> string" where
  "encode fmt embedding = ''['' @ join '','' (map fmt embedding) @ '']''"

text \<open>
  The result is \<open>None\<close> when the call does not return, \<open>Some (Inl x)\<close> when it raises
  \<open>x\<close>, and otherwise the boolean it returns with the events it caused.
\<close>

definition update_coffee_embedding ::
  "env \<Rightarrow> coffee \<Rightarrow> bool \<Rightarrow> bool \<Rightarrow> (exc + bool \<times> event list) option" where
  "update_coffee_embedding e c has_openai dry_run =
     (case coffee_flavor_tags c of
        None \<Rightarrow> Some (Inr (False, [NoTagsWarning (coffee_id c)]))
      | Some flavor_tags \<Rightarrow>
          if flavor_tags = [] then Some (Inr (False, [NoTagsWarning (coffee_id c)]))
          else
            (let generated =
                   (if has_openai then Some (generate_openai_embedding e flavor_tags)
                    else (case generate_fallback_embedding (py_hash e) flavor_tags of
                            None \<Rightarrow> None
                          | Some (Inl x) \<Rightarrow> Some (Inl x)
                          | Some (Inr v) \<Rightarrow> Some (Inr (Some v))));
                 call = (if has_openai then PrimaryCall flavor_tags else FallbackCall flavor_tags)
             in case generated of
                  None \<Rightarrow> None
                | Some (Inl x) \<Rightarrow> Some (Inl x)
                | Some (Inr embedding) \<Rightarrow>
                    (case embedding of
                       None \<Rightarrow> Some (Inr (False, [call]))
                     | Some v \<Rightarrow>
                         if v = [] then Some (Inr (False, [call]))
                         else
                           (let embedding_str = encode (float_str e) v
                            in if dry_run then Some (Inr (True, [call]))
                               else (case rpc_execute e (coffee_id c) embedding_str of
                                       Inl x \<Rightarrow>
                                         if is_Exception x
                                         then Some (Inr (False, [call, RpcCall (coffee_id c) embedding_str]))
                                         else Some (Inl x)
                                     | Inr ok \<Rightarrow>
                                         Some (Inr (ok, [call, RpcCall (coffee_id c) embedding_str])))))))"

section \<open>Batch runner\<close>

text \<open>The values of \<open>range(i, stop, step)\<close> for a step that is not zero.\<close>

function range_list :: "int \<Rightarrow> int \<Rightarrow> int \<Rightarrow> int list" where
  "range_list i stop step =
     (if (0 < step \<and> i < stop) \<or> (step < 0 \<and> stop < i)
      then i # range_list (i + step) stop step else [])"
  by pat_completeness auto
termination
  by (relation "measure (\<lambda>(i, stop, step). nat (if 0 < step then stop - i else i - stop))") auto

declare range_list.simps [simp del]

text \<open>\<open>coffees[i:j]\<close> for \<open>0 \<le> i\<close> and \<open>0 \<le> j\<close>, the only slices the loop takes.\<close>

definition slice :: "'a list \<Rightarrow> int \<Rightarrow> int \<Rightarrow> 'a list" where
  "slice xs i j = take (nat (j - i)) (drop (nat i) xs)"

definition batches :: "coffee list \<Rightarrow> int \<Rightarrow> coffee list list" where
  "batches coffees batch_size =
     map (\<lambda>i. slice coffees i (i + batch_size))
       (range_list 0 (int (length coffees)) batch_size)"

record tally =
  updated :: nat
  failed :: nat
  trace :: "event list"

text \<open>The loop \<open>for coffee in batch\<close>.\<close>

fun process_batch :: "env \<Rightarrow> bool \<Rightarrow> bool \<Rightarrow> coffee list \<Rightarrow> tally \<Rightarrow> (exc + tally) option" where
  "process_batch e has_openai dry_run [] t = Some (Inr t)"
| "process_batch e has_openai dry_run (c # batch) t =
     (case update_coffee_embedding e c has_openai dry_run of
        None \<Rightarrow> None
      | Some (Inl x) \<Rightarrow> Some (Inl x)
      | Some (Inr (success, events)) \<Rightarrow>
          process_batch e has_openai dry_run batch
            (if success
             then t\<lparr>updated := updated t + 1, trace := trace t @ events\<rparr>
             else t\<lparr>failed := failed t + 1, trace := trace t @ events\<rparr>))"

text \<open>The loop \<open>for i in range(0, total_coffees, batch_size)\<close>.\<close>

fun process_batches :: "env \<Rightarrow> bool \<Rightarrow> bool \<Rightarrow> coffee list list \<Rightarrow> tally \<Rightarrow> (exc + tally) option" where
  "process_batches e has_openai dry_run [] t = Some (Inr t)"
| "process_batches e has_openai dry_run (batch # rest) t =
     (case process_batch e has_openai dry_run batch t of
        None \<Rightarrow> None
      | Some (Inl x) \<Rightarrow> Some (Inl x)
      | Some (Inr t') \<Rightarrow> process_batches e has_openai dry_run rest t')"

text \<open>
  The body of \<open>main\<close> from "Set up tracking" on. \<open>range\<close> raises \<open>ValueError\<close> for a
  zero step.
\<close>

definition run :: "env \<Rightarrow> coffee list \<Rightarrow> bool \<Rightarrow> int \<Rightarrow> bool \<Rightarrow> (exc + tally) option" where
  "run e coffees has_openai batch_size dry_run =
     (if batch_size = 0 then Some (Inl ValueError)
      else process_batches e has_openai dry_run (batches coffees batch_size)
             \<lparr>updated = 0, failed = 0, trace = []\<rparr>)"

datatype main_result = NoCoffees | Cancelled | Finished tally

definition main :: "env \<Rightarrow> args \<Rightarrow> (exc + main_result) option" where
  "main e a =
     (case initialize_clients e a of
        Inl x \<Rightarrow> Some (Inl x)
      | Inr has_openai \<Rightarrow>
          (case get_coffee_data e (arg_force_all a) of
             Inl x \<Rightarrow> Some (Inl x)
           | Inr coffees \<Rightarrow>
               if coffees = [] then Some (Inr NoCoffees)
               else
                 (case (if \<not> has_openai \<and> \<not> arg_force_all a
                        then (case stdin_input e of
                                Inl x \<Rightarrow> Inl x
                              | Inr user_input \<Rightarrow> Inr (lower user_input = ''y''))
                        else Inr True) of
                    Inl x \<Rightarrow> Some (Inl x)
                  | Inr False \<Rightarrow> Some (Inr Cancelled)
                  | Inr True \<Rightarrow>
                      (case run e coffees has_openai (arg_batch_size a) (arg_dry_run a) of
                         None \<Rightarrow> None
                       | Some (Inl x) \<Rightarrow> Some (Inl x)
                       | Some (Inr t) \<Rightarrow> Some (Inr (Finished t))))))"

text \<open>
  The \<open>__main__\<close> guard: the exit status of the process, \<open>None\<close> when it never exits.
\<close>

definition exit_status :: "env \<Rightarrow> args \<Rightarrow> int option" where
  "exit_status e a =
     (case main e a of
        None \<Rightarrow> None
      | Some (Inr _) \<Rightarrow> Some 0
      | Some (Inl (SystemExit n)) \<Rightarrow> Some n
      | Some (Inl KeyboardInterrupt) \<Rightarrow> Some 1
      | Some (Inl _) \<Rightarrow> Some 1)"

section \<open>Auxiliary notions for the runner\<close>

text \<open>
  What \<open>update_coffee_embedding\<close> returns for a record, read off its result: the
  success flag and the events. The default is never taken when the call returns.
\<close>

definition outcome :: "env \<Rightarrow> bool \<Rightarrow> bool \<Rightarrow> coffee \<Rightarrow> bool \<times> event list" where
  "outcome e has_openai dry_run c =
     (case update_coffee_embedding e c has_openai dry_run of
        Some (Inr r) \<Rightarrow> r
      | _ \<Rightarrow> (False, []))"

text \<open>Generation succeeds for a record: it has tags and the generator in use yields a vector.\<close>

definition generation_succeeds :: "env \<Rightarrow> bool \<Rightarrow> coffee \<Rightarrow> bool" where
  "generation_succeeds e has_openai c =
     (case coffee_flavor_tags c of
        None \<Rightarrow> False
      | Some flavor_tags \<Rightarrow>
          flavor_tags \<noteq> [] \<and>
          (if has_openai
           then (case generate_openai_embedding e flavor_tags of
                   Inr (Some v) \<Rightarrow> True
                 | _ \<Rightarrow> False)
           else True))"

section \<open>Sample data\<close>

text \<open>
  Three catalog records around a sync at \<open>2024-03-01\<close>: one embedded and unchanged
  since, one embedded and changed since, one never embedded and without tags.
\<close>

definition sample_embedded_old :: coffee where
  "sample_embedded_old =
     \<lparr>coffee_id = 1, coffee_name = Some ''Kenya AA'',
      coffee_flavor_tags = Some [''Fruity'', ''bright''],
      coffee_created_at = Some ''2024-01-01T00:00:00'',
      coffee_updated_at = Some ''2024-02-01T00:00:00'',
      coffee_flavor_embedding = Some (replicate 1536 0)\<rparr>"

definition sample_embedded_new :: coffee where
  "sample_embedded_new =
     \<lparr>coffee_id = 2, coffee_name = Some ''Sumatra'',
      coffee_flavor_tags = Some [''dark chocolate''],
      coffee_created_at = Some ''2024-01-01T00:00:00'',
      coffee_updated_at = Some ''2024-06-01T00:00:00'',
      coffee_flavor_embedding = Some (replicate 1536 0)\<rparr>"

definition sample_untagged :: coffee where
  "sample_untagged =
     \<lparr>coffee_id = 3, coffee_name = None,
      coffee_flavor_tags = Some [],
      coffee_created_at = Some ''2024-01-15T00:00:00'',
      coffee_updated_at = None,
      coffee_flavor_embedding = None\<rparr>"

definition sample_coffees :: "coffee list" where
  "sample_coffees = [sample_embedded_old, sample_embedded_new, sample_untagged]"

definition sample_env :: env where
  "sample_env =
     \<lparr>environ = (\<lambda>name. None), py_hash = hash_seed_a, create_client = (\<lambda>url key. None),
      coffees_table = Inr sample_coffees,
      update_logs_table = Inr [Some ''2024-03-01T00:00:00''],
      embeddings_create = (\<lambda>text. Inr (replicate 1536 0.5)),
      rpc_execute = (\<lambda>i s. Inr False),
      float_str = (\<lambda>x. ''0.5''),
      stdin_input = Inr ''y''\<rparr>"


text \<open>
  Further sample worlds: an embedding service that fails or answers with seven components,
  a gateway that accepts every write, a gateway that cannot be reached, an operator who
  interrupts the first call to the embedding service, an operator who answers no at the
  prompt, and a client library that refuses to construct the client.
\<close>

definition failing_env :: env where
  "failing_env =
     sample_env\<lparr>embeddings_create :=
       (\<lambda>text. if text = ''dark chocolate'' then Inl ServiceError else Inr (replicate 7 0))\<rparr>"

definition writing_env :: env where
  "writing_env = sample_env\<lparr>rpc_execute := (\<lambda>i s. Inr True)\<rparr>"

definition sample_args :: args where
  "sample_args =
     \<lparr>arg_supabase_url = Some ''https://example.supabase.co'',
      arg_supabase_key = Some ''service-key'',
      arg_openai_key = Some ''sk-test'',
      arg_force_all = False,
      arg_batch_size = BATCH_SIZE,
      arg_dry_run = False\<rparr>"

definition unreachable_env :: env where
  "unreachable_env = sample_env\<lparr>coffees_table := Inl ServiceError\<rparr>"

definition interrupted_env :: env where
  "interrupted_env = sample_env\<lparr>embeddings_create := (\<lambda>text. Inl KeyboardInterrupt)\<rparr>"

definition declining_env :: env where
  "declining_env = sample_env\<lparr>stdin_input := Inr ''n''\<rparr>"

definition clientless_env :: env where
  "clientless_env = sample_env\<lparr>create_client := (\<lambda>url key. Some ServiceError)\<rparr>"

section \<open>Properties of the fallback generator\<close>

lemma match_flavor_inv:
  assumes "match_flavor fm t base = Some v"
    and "\<forall>(k, vec) \<in> set fm. length vec = length base \<and> (\<forall>x \<in> set vec. 0 \<le> x)"
    and "\<forall>x \<in> set base. 0 < x"
  shows "length v = length base \<and> (\<forall>x \<in> set v. 0 < x)"
  using assms
proof (induction fm t base rule: match_flavor.induct)
  case (1 t base)
  then show ?case by simp
next
  case (2 flavor vector rest t base)
  show ?case
  proof (cases "contains flavor t")
    case True
    with 2 have v: "v = map2 (\<lambda>b f. b + 0.5 * f) base vector" by simp
    from 2 have len: "length vector = length base" and nn: "\<forall>x \<in> set vector. 0 \<le> x" by auto
    have "\<forall>x \<in> set v. 0 < x"
    proof
      fix x assume "x \<in> set v"
      then obtain b f where "(b, f) \<in> set (zip base vector)" "x = b + 0.5 * f"
        unfolding v by auto
      then have "b \<in> set base" "f \<in> set vector" by (auto dest: set_zip_leftD set_zip_rightD)
      with 2 nn \<open>x = b + 0.5 * f\<close> show "0 < x" by (simp add: add_pos_nonneg)
    qed
    then show ?thesis using len v by simp
  next
    case False
    with 2 show ?thesis by simp
  qed
qed

lemma flavor_map_shape:
  "\<forall>(k, vec) \<in> set flavor_map. length vec = 5 \<and> (\<forall>x \<in> set vec. 0 \<le> x)"
  by (simp add: flavor_map_def)

lemma add_tags_inv:
  "length base = 5 \<Longrightarrow> \<forall>x \<in> set base. 0 < x \<Longrightarrow>
   length (add_tags tags base) = 5 \<and> (\<forall>x \<in> set (add_tags tags base). 0 < x)"
proof (induction tags arbitrary: base)
  case Nil
  then show ?case by simp
next
  case (Cons tag tags)
  show ?case
  proof (cases "match_flavor flavor_map (lower tag) base")
    case None
    have "length (map (\<lambda>val. val + 0.05) base) = 5" using Cons.prems by simp
    moreover have "\<forall>x \<in> set (map (\<lambda>val. val + 0.05) base). 0 < x"
      using Cons.prems by (auto intro: add_pos_pos)
    ultimately have "length (add_tags tags (map (\<lambda>val. val + 0.05) base)) = 5 \<and>
        (\<forall>x \<in> set (add_tags tags (map (\<lambda>val. val + 0.05) base)). 0 < x)"
      by (rule Cons.IH)
    then show ?thesis using None by simp
  next
    case (Some v)
    from match_flavor_inv [OF Some] flavor_map_shape Cons.prems
    have "length v = 5 \<and> (\<forall>x \<in> set v. 0 < x)" by simp
    then have "length (add_tags tags v) = 5 \<and> (\<forall>x \<in> set (add_tags tags v). 0 < x)"
      using Cons.IH [of v] by blast
    then show ?thesis using Some by simp
  qed
qed

lemma magnitude_pos:
  assumes "base \<noteq> []" "\<forall>x \<in> set base. 0 < x"
  shows "0 < magnitude_of base"
proof -
  from assms obtain b bs where b: "base = b # bs" by (cases base) auto
  have "0 \<le> sum_list (map (\<lambda>val. val ^ 2) bs)" by (rule sum_list_nonneg) auto
  moreover have "0 < b ^ 2" using assms b by simp
  ultimately have "0 < b ^ 2 + sum_list (map (\<lambda>val. val ^ 2) bs)" by (rule add_pos_nonneg [rotated])
  then have "0 < sum_list (map (\<lambda>val. val ^ 2) base)" unfolding b by simp
  then show ?thesis by (simp add: magnitude_of_def)
qed

lemma normalize_ok:
  "m \<noteq> 0 \<Longrightarrow> normalize base m = Inr (map (\<lambda>val. val / m) base)"
  by (induction base) auto

lemma fill_pass_append:
  "length full < VECTOR_DIMENSIONS \<Longrightarrow>
   fill_pass h vals full =
     full @ map (\<lambda>i. vals ! i * variation_factor h (length full + i))
              [0..<min (length vals) (VECTOR_DIMENSIONS - length full)]"
proof (induction vals arbitrary: full)
  case Nil
  then show ?case by simp
next
  case (Cons v vs)
  let ?f = "\<lambda>i. (v # vs) ! i * variation_factor h (length full + i)"
  let ?full' = "full @ [v * variation_factor h (length full)]"
  show ?case
  proof (cases "Suc (length full) \<ge> VECTOR_DIMENSIONS")
    case True
    with Cons.prems have "VECTOR_DIMENSIONS - length full = Suc 0" by simp
    then have "min (length (v # vs)) (VECTOR_DIMENSIONS - length full) = Suc 0" by simp
    then have "map ?f [0..<min (length (v # vs)) (VECTOR_DIMENSIONS - length full)] = [?f 0]"
      by simp
    then show ?thesis using True by (simp add: Let_def)
  next
    case False
    then have lt: "length ?full' < VECTOR_DIMENSIONS" by simp
    have m: "min (length (v # vs)) (VECTOR_DIMENSIONS - length full)
             = Suc (min (length vs) (VECTOR_DIMENSIONS - length ?full'))"
      using False by simp
    have "fill_pass h (v # vs) full = fill_pass h vs ?full'"
      using False by (simp add: Let_def)
    also have "\<dots> = ?full' @ map (\<lambda>i. vs ! i * variation_factor h (length ?full' + i))
                        [0..<min (length vs) (VECTOR_DIMENSIONS - length ?full')]"
      by (rule Cons.IH [OF lt])
    also have "\<dots> = full @ map ?f [0..<Suc (min (length vs) (VECTOR_DIMENSIONS - length ?full'))]"
      by (simp add: upt_conv_Cons map_Suc_upt [symmetric] del: upt_Suc)
    finally show ?thesis using m by simp
  qed
qed

lemma fill_pass_pattern:
  assumes "normalized \<noteq> []" "length normalized dvd k" "k < VECTOR_DIMENSIONS"
  shows "fill_pass h normalized (map (pattern_at h normalized) [0..<k])
         = map (pattern_at h normalized) [0..<min (k + length normalized) VECTOR_DIMENSIONS]"
proof -
  let ?p = "length normalized"
  let ?m = "min ?p (VECTOR_DIMENSIONS - k)"
  have "fill_pass h normalized (map (pattern_at h normalized) [0..<k])
        = map (pattern_at h normalized) [0..<k]
          @ map (\<lambda>i. normalized ! i * variation_factor h (k + i)) [0..<?m]"
    using fill_pass_append [of "map (pattern_at h normalized) [0..<k]" h normalized] assms(3)
    by simp
  also have "map (\<lambda>i. normalized ! i * variation_factor h (k + i)) [0..<?m]
             = map (\<lambda>i. pattern_at h normalized (k + i)) [0..<?m]"
  proof (rule map_cong [OF refl])
    fix i assume "i \<in> set [0..<?m]"
    then have "i < ?p" by simp
    with assms(2) have "(k + i) mod ?p = i" by (auto simp: mod_add_left_eq [symmetric] dvd_eq_mod_eq_0)
    then show "normalized ! i * variation_factor h (k + i) = pattern_at h normalized (k + i)"
      by (simp add: pattern_at_def)
  qed
  also have "\<dots> = map (pattern_at h normalized) [k..<k + ?m]"
  proof -
    have "[k..<k + ?m] = map (\<lambda>i. i + k) [0..<?m]"
      by (simp only: map_add_upt add.commute)
    then show ?thesis by (simp only: map_map comp_def add.commute)
  qed
  also have "map (pattern_at h normalized) [0..<k] @ map (pattern_at h normalized) [k..<k + ?m]
             = map (pattern_at h normalized) [0..<k + ?m]"
    by (simp only: map_append [symmetric] upt_add_eq_append [OF le0, simplified, symmetric])
  also have "k + ?m = min (k + ?p) VECTOR_DIMENSIONS" using assms(3) by simp
  finally show ?thesis .
qed

lemma expand_pattern:
  assumes "normalized \<noteq> []"
  shows "length normalized dvd k \<or> k = VECTOR_DIMENSIONS \<Longrightarrow> k \<le> VECTOR_DIMENSIONS \<Longrightarrow>
         expand h normalized (map (pattern_at h normalized) [0..<k])
         = Some (map (pattern_at h normalized) [0..<VECTOR_DIMENSIONS])"
proof (induction "VECTOR_DIMENSIONS - k" arbitrary: k rule: less_induct)
  case less
  show ?case
  proof (cases "k = VECTOR_DIMENSIONS")
    case True
    then show ?thesis by (subst expand.simps) simp
  next
    case False
    with less.prems have lt: "k < VECTOR_DIMENSIONS" and dv: "length normalized dvd k" by auto
    let ?k' = "min (k + length normalized) VECTOR_DIMENSIONS"
    have pos: "0 < length normalized" using assms by simp
    have "expand h normalized (map (pattern_at h normalized) [0..<k])
          = expand h normalized (map (pattern_at h normalized) [0..<?k'])"
      using lt fill_pass_pattern [OF assms dv lt, of h] by (subst expand.simps) simp
    also have "\<dots> = Some (map (pattern_at h normalized) [0..<VECTOR_DIMENSIONS])"
    proof (rule less.hyps)
      from lt pos show "VECTOR_DIMENSIONS - ?k' < VECTOR_DIMENSIONS - k" by arith
      show "length normalized dvd ?k' \<or> ?k' = VECTOR_DIMENSIONS" using dv by (auto simp: min_def)
      show "?k' \<le> VECTOR_DIMENSIONS" by simp
    qed
    finally show ?thesis .
  qed
qed

lemma expand_from_empty:
  "normalized \<noteq> [] \<Longrightarrow>
   expand h normalized [] = Some (map (pattern_at h normalized) [0..<VECTOR_DIMENSIONS])"
  using expand_pattern [of normalized 0 h] by simp

lemma base_vector_shape:
  "length (add_tags tags (replicate 5 0.1)) = 5 \<and>
   (\<forall>x \<in> set (add_tags tags (replicate 5 0.1)). 0 < x)"
  by (rule add_tags_inv) auto

lemma generate_fallback_embedding_eq:
  "generate_fallback_embedding h tags
   = Some (Inr (map (pattern_at h (unit_vector tags)) [0..<VECTOR_DIMENSIONS]))"
proof -
  let ?b = "add_tags tags (replicate 5 0.1)"
  have ne: "?b \<noteq> []" using base_vector_shape [of tags] by auto
  have "0 < magnitude_of ?b" using ne base_vector_shape [of tags] by (intro magnitude_pos) auto
  then have n: "normalize ?b (magnitude_of ?b) = Inr (unit_vector tags)"
    by (simp add: normalize_ok unit_vector_def Let_def)
  have "unit_vector tags \<noteq> []" using ne by (simp add: unit_vector_def Let_def)
  then show ?thesis
    by (simp add: generate_fallback_embedding_def Let_def n expand_from_empty)
qed

lemma unit_vector_shape:
  "length (unit_vector tags) = 5 \<and> (\<forall>x \<in> set (unit_vector tags). 0 < x)"
proof -
  let ?b = "add_tags tags (replicate 5 0.1)"
  have sh: "length ?b = 5 \<and> (\<forall>x \<in> set ?b. 0 < x)" by (rule base_vector_shape)
  then have "?b \<noteq> []" by auto
  with sh have "0 < magnitude_of ?b" by (intro magnitude_pos) auto
  with sh show ?thesis by (auto simp: unit_vector_def Let_def)
qed

text \<open>
  Claim C3. For every list of tags (in particular every non-empty one, whether its tags
  match no keyword of the dictionary or all match one), \<open>generate_fallback_embedding\<close>
  returns, and returns a vector of exactly 1536 elements.
\<close>

theorem fallback_length:
  "\<exists>v. generate_fallback_embedding str_hash flavor_tags = Some (Inr v) \<and> length v = 1536"
  by (simp add: generate_fallback_embedding_eq VECTOR_DIMENSIONS_def)

text \<open>
  Claim C9. \<open>generate_fallback_embedding\<close> never raises: the base vector starts at 0.1
  per component and only grows, so the Euclidean norm the normalisation divides by is
  positive for every tag list, and the call returns a vector.
\<close>

theorem fallback_never_raises:
  "0 < magnitude_of (add_tags flavor_tags (replicate 5 0.1)) \<and>
   (\<exists>v. generate_fallback_embedding str_hash flavor_tags = Some (Inr v))"
proof
  let ?b = "add_tags flavor_tags (replicate 5 0.1)"
  have sh: "length ?b = 5 \<and> (\<forall>x \<in> set ?b. 0 < x)" by (rule base_vector_shape)
  then have "?b \<noteq> []" by auto
  with sh show "0 < magnitude_of ?b" by (intro magnitude_pos) auto
  show "\<exists>v. generate_fallback_embedding str_hash flavor_tags = Some (Inr v)"
    by (simp add: generate_fallback_embedding_eq)
qed

text \<open>
  Claim C8, as stated, fails: the vector is not a function of the tag sequence alone.
  The expansion reads the interpreter's string hash, which differs between processes;
  under two hashes the same tags give two different vectors.
\<close>

theorem fallback_depends_on_hash:
  "generate_fallback_embedding hash_seed_a [''fruity'']
   \<noteq> generate_fallback_embedding hash_seed_b [''fruity'']"
proof
  let ?u = "unit_vector [''fruity'']"
  assume "generate_fallback_embedding hash_seed_a [''fruity'']
          = generate_fallback_embedding hash_seed_b [''fruity'']"
  then have eq: "map (pattern_at hash_seed_a ?u) [0..<VECTOR_DIMENSIONS]
             = map (pattern_at hash_seed_b ?u) [0..<VECTOR_DIMENSIONS]"
    by (simp only: generate_fallback_embedding_eq option.inject sum.inject)
  have "0 \<in> set [0..<VECTOR_DIMENSIONS]" by (simp add: VECTOR_DIMENSIONS_def)
  with eq have "pattern_at hash_seed_a ?u 0 = pattern_at hash_seed_b ?u 0"
    by (simp only: map_eq_conv)
  then have "?u ! 0 * 0.95 = ?u ! 0 * 1"
    using unit_vector_shape [of "[''fruity'']"]
    by (simp add: pattern_at_def variation_factor_def hash_seed_a_def hash_seed_b_def)
  moreover have "0 < ?u ! 0" using unit_vector_shape [of "[''fruity'']"] by (simp add: nth_mem)
  ultimately show False by simp
qed

text \<open>
  Claim C8, amended. \<open>generate_fallback_embedding\<close> does no input or output, and its
  result is a function of the tag sequence and of the values \<open>hash(str(i)) % 10\<close> for
  the positions \<open>i < 1536\<close>: two calls whose string hashes agree on those values, as any
  two calls in one process do, return the identical vector.
\<close>

theorem fallback_function_of_tags_and_hash:
  assumes "\<forall>i < VECTOR_DIMENSIONS. h1 (str_nat i) mod 10 = h2 (str_nat i) mod 10"
  shows "generate_fallback_embedding h1 flavor_tags = generate_fallback_embedding h2 flavor_tags"
proof -
  have "map (pattern_at h1 (unit_vector flavor_tags)) [0..<VECTOR_DIMENSIONS]
        = map (pattern_at h2 (unit_vector flavor_tags)) [0..<VECTOR_DIMENSIONS]"
    using assms by (intro map_cong refl) (simp add: pattern_at_def variation_factor_def)
  then show ?thesis by (simp only: generate_fallback_embedding_eq)
qed

theorem fallback_function_of_tags_and_hash_witness:
  "generate_fallback_embedding hash_seed_a [''Fruity'', ''oak'']
   = generate_fallback_embedding hash_seed_c [''Fruity'', ''oak'']"
proof -
  have h: "\<forall>i < VECTOR_DIMENSIONS. hash_seed_a (str_nat i) mod 10 = hash_seed_c (str_nat i) mod 10"
    by (simp add: hash_seed_a_def hash_seed_c_def)
  from fallback_function_of_tags_and_hash [OF h] show ?thesis .
qed

section \<open>Properties of the change detector\<close>

lemma need_update_loop_step:
  "need_update_loop (Some t) (c # coffees) need_update =
     need_update_loop (Some t) coffees
       (if (\<exists>u. (if coffee_updated_at c = None \<or> coffee_updated_at c = Some []
                  then coffee_created_at c else coffee_updated_at c) = Some u \<and> t < u)
           \<or> coffee_flavor_embedding c = None \<or> coffee_flavor_embedding c = Some []
        then need_update @ [c] else need_update)"
proof -
  let ?cu = "py_or (coffee_updated_at c) (coffee_created_at c)"
  have cu: "?cu = (if coffee_updated_at c = None \<or> coffee_updated_at c = Some []
                   then coffee_created_at c else coffee_updated_at c)"
    by (auto simp: py_or_def truthy_def split: option.splits)
  have emb: "truthy (coffee_flavor_embedding c) \<longleftrightarrow>
             \<not> (coffee_flavor_embedding c = None \<or> coffee_flavor_embedding c = Some [])"
    by (auto simp: truthy_def split: option.splits)
  show ?thesis
  proof (cases ?cu)
    case None
    then show ?thesis using cu emb by (simp add: Let_def)
  next
    case (Some u)
    have nil: "\<not> t < ([] :: string)" by simp
    show ?thesis
    proof (cases "u = []")
      case True
      with Some cu emb nil show ?thesis by (simp add: Let_def)
    next
      case False
      with Some cu emb show ?thesis by (cases "t < u") (simp_all add: Let_def)
    qed
  qed
qed

lemma need_update_loop_filter:
  "need_update_loop (Some t) coffees need_update =
     Inr (need_update @
          filter (\<lambda>c. (\<exists>u. (if coffee_updated_at c = None \<or> coffee_updated_at c = Some []
                             then coffee_created_at c else coffee_updated_at c) = Some u \<and> t < u)
                      \<or> coffee_flavor_embedding c = None \<or> coffee_flavor_embedding c = Some [])
            coffees)"
proof (induction coffees arbitrary: need_update)
  case Nil
  then show ?case by simp
next
  case (Cons c coffees)
  show ?case by (simp only: need_update_loop_step Cons.IH filter.simps split: if_splits) simp
qed

text \<open>
  Claim C1. With \<open>force_all\<close> unset and a last sync time \<open>t\<close> in the log, the work
  set is the record list filtered, in order, by: the record's \<open>updated_at\<close> (or its
  \<open>created_at\<close> when \<open>updated_at\<close> is absent or empty) is strictly later than \<open>t\<close>,
  or its \<open>flavor_embedding\<close> is absent or empty. So a record updated before \<open>t\<close>
  with an embedding is left out. "Later" is the order on the timestamp strings.
\<close>

theorem change_detector_work_set:
  assumes "coffees_table e = Inr coffees"
    and "update_logs_table e = Inr (Some t # rows)"
  shows "get_coffee_data e False =
     Inr (filter (\<lambda>c. (\<exists>u. (if coffee_updated_at c = None \<or> coffee_updated_at c = Some []
                             then coffee_created_at c else coffee_updated_at c) = Some u \<and> t < u)
                      \<or> coffee_flavor_embedding c = None \<or> coffee_flavor_embedding c = Some [])
            coffees)"
  using assms by (simp add: get_coffee_data_def need_update_loop_filter)

theorem change_detector_work_set_witness:
  "get_coffee_data sample_env False = Inr [sample_embedded_new, sample_untagged]"
proof -
  have a: "coffees_table sample_env = Inr sample_coffees" by (simp add: sample_env_def)
  have b: "update_logs_table sample_env = Inr (Some ''2024-03-01T00:00:00'' # [])"
    by (simp add: sample_env_def)
  show ?thesis
    unfolding change_detector_work_set [OF a b]
    by (simp add: sample_coffees_def sample_embedded_old_def sample_embedded_new_def
        sample_untagged_def less_char_def)
qed

lemma sample_work_set:
  assumes "coffees_table e = Inr sample_coffees"
    and "update_logs_table e = Inr [Some ''2024-03-01T00:00:00'']"
  shows "get_coffee_data e False = Inr [sample_embedded_new, sample_untagged]"
proof -
  have ne: "sample_coffees \<noteq> []" by (simp add: sample_coffees_def)
  have "need_update_loop (Some ''2024-03-01T00:00:00'') sample_coffees []
        = Inr [sample_embedded_new, sample_untagged]"
    unfolding need_update_loop_filter
    by (simp add: sample_coffees_def sample_embedded_old_def sample_embedded_new_def
        sample_untagged_def less_char_def)
  then show ?thesis using ne assms by (simp add: get_coffee_data_def)
qed

text \<open>
  Claim C2, on the code. The catalog of the sample world holds a record whose
  \<open>flavor_tags\<close> is empty. With \<open>force_all\<close> set the change detector returns the
  whole catalog, and with \<open>force_all\<close> unset it returns the stale records; the record
  without tags is in both work sets. The query above which the source writes "Get all
  coffees with flavor tags" applies no filter.
\<close>

theorem work_set_contains_untagged:
  "coffee_flavor_tags sample_untagged = Some []
   \<and> get_coffee_data sample_env True = Inr sample_coffees
   \<and> sample_untagged \<in> set sample_coffees
   \<and> get_coffee_data sample_env False = Inr [sample_embedded_new, sample_untagged]"
proof (intro conjI)
  show "coffee_flavor_tags sample_untagged = Some []" by (simp add: sample_untagged_def)
  show "get_coffee_data sample_env True = Inr sample_coffees"
    by (simp add: get_coffee_data_def sample_env_def sample_coffees_def)
  show "sample_untagged \<in> set sample_coffees" by (simp add: sample_coffees_def)
  show "get_coffee_data sample_env False = Inr [sample_embedded_new, sample_untagged]"
    by (rule sample_work_set) (simp_all add: sample_env_def)
qed

section \<open>Properties of the batch runner\<close>

lemma slice_take_drop: "0 \<le> i \<Longrightarrow> slice xs i (i + bs) = take (nat bs) (drop (nat i) xs)"
  by (simp add: slice_def)

lemma concat_batches_from:
  "0 < bs \<Longrightarrow> 0 \<le> i \<Longrightarrow>
   concat (map (\<lambda>i. slice xs i (i + bs)) (range_list i (int (length xs)) bs)) = drop (nat i) xs"
proof (induction i "int (length xs)" bs rule: range_list.induct)
  case (1 i step)
  show ?case
  proof (cases "i < int (length xs)")
    case True
    with 1 have ih: "concat (map (\<lambda>i. slice xs i (i + step)) (range_list (i + step) (int (length xs)) step))
                     = drop (nat (i + step)) xs"
      by simp
    have "nat (i + step) = nat step + nat i" using 1 by (simp add: nat_add_distrib)
    then have "take (nat step) (drop (nat i) xs) @ drop (nat (i + step)) xs = drop (nat i) xs"
      by (metis append_take_drop_id drop_drop)
    then show ?thesis
      using True 1 ih by (subst range_list.simps) (simp add: slice_take_drop)
  next
    case False
    then show ?thesis using 1 by (subst range_list.simps) simp
  qed
qed

lemma concat_batches: "0 < bs \<Longrightarrow> concat (batches xs bs) = xs"
  using concat_batches_from [of bs 0 xs] by (simp add: batches_def)





lemma process_batch_append:
  "process_batch e ho dr (xs @ ys) t =
     (case process_batch e ho dr xs t of
        None \<Rightarrow> None
      | Some (Inl x) \<Rightarrow> Some (Inl x)
      | Some (Inr t') \<Rightarrow> process_batch e ho dr ys t')"
proof (induction xs arbitrary: t)
  case Nil
  then show ?case by simp
next
  case (Cons c xs)
  show ?case
    by (cases "update_coffee_embedding e c ho dr")
       (auto simp: Cons.IH split: sum.splits)
qed

lemma process_batches_concat:
  "process_batches e ho dr bss t = process_batch e ho dr (concat bss) t"
proof (induction bss arbitrary: t)
  case Nil
  then show ?case by simp
next
  case (Cons b bss)
  show ?case
    by (simp add: process_batch_append Cons.IH split: option.splits sum.splits)
qed

lemma run_process_batch:
  "0 < bs \<Longrightarrow>
   run e coffees ho bs dr = process_batch e ho dr coffees \<lparr>updated = 0, failed = 0, trace = []\<rparr>"
  by (simp add: run_def process_batches_concat concat_batches)

lemma update_returns:
  assumes "\<And>text x. embeddings_create e text = Inl x \<Longrightarrow> is_Exception x"
    and "\<And>i s x. rpc_execute e i s = Inl x \<Longrightarrow> is_Exception x"
  shows "update_coffee_embedding e c ho dr = Some (Inr (outcome e ho dr c))"
proof -
  have "\<exists>r. update_coffee_embedding e c ho dr = Some (Inr r)"
  proof (cases "coffee_flavor_tags c")
    case None
    then show ?thesis by (auto simp: update_coffee_embedding_def)
  next
    case (Some tags)
    show ?thesis
    proof (cases "tags = []")
      case True
      with Some show ?thesis by (auto simp: update_coffee_embedding_def)
    next
      case False
      have gen: "\<exists>g. (if ho then Some (generate_openai_embedding e tags)
                      else (case generate_fallback_embedding (py_hash e) tags of
                              None \<Rightarrow> None
                            | Some (Inl x) \<Rightarrow> Some (Inl x)
                            | Some (Inr v) \<Rightarrow> Some (Inr (Some v)))) = Some (Inr g)"
        using assms(1)
        by (auto simp: generate_openai_embedding_def generate_fallback_embedding_eq Let_def
            split: sum.splits)
      then obtain g where g: "(if ho then Some (generate_openai_embedding e tags)
                      else (case generate_fallback_embedding (py_hash e) tags of
                              None \<Rightarrow> None
                            | Some (Inl x) \<Rightarrow> Some (Inl x)
                            | Some (Inr v) \<Rightarrow> Some (Inr (Some v)))) = Some (Inr g)" ..
      show ?thesis
        using Some False assms(2)
        by (auto simp: update_coffee_embedding_def g Let_def split: option.splits sum.splits)
    qed
  qed
  then show ?thesis by (auto simp: outcome_def)
qed

lemma process_batch_eq:
  assumes "\<And>text x. embeddings_create e text = Inl x \<Longrightarrow> is_Exception x"
    and "\<And>i s x. rpc_execute e i s = Inl x \<Longrightarrow> is_Exception x"
  shows "process_batch e ho dr cs t =
     Some (Inr \<lparr>updated = updated t + length (filter (\<lambda>c. fst (outcome e ho dr c)) cs),
               failed = failed t + length (filter (\<lambda>c. \<not> fst (outcome e ho dr c)) cs),
               trace = trace t @ concat (map (\<lambda>c. snd (outcome e ho dr c)) cs)\<rparr>)"
proof (induction cs arbitrary: t)
  case Nil
  then show ?case by simp
next
  case (Cons c cs)
  show ?case
    by (cases "outcome e ho dr c")
       (simp add: update_returns [OF assms] Cons.IH)
qed

lemma fallback_nonempty:
  "generate_fallback_embedding h tags = Some (Inr v) \<Longrightarrow> v \<noteq> []"
  by (auto simp: generate_fallback_embedding_eq VECTOR_DIMENSIONS_def)

lemma openai_nonempty:
  "generate_openai_embedding e tags = Inr (Some v) \<Longrightarrow> v \<noteq> []"
  by (auto simp: generate_openai_embedding_def Let_def VECTOR_DIMENSIONS_def
      split: sum.splits if_splits)

lemma outcome_dry_run:
  "outcome e ho True c =
     (generation_succeeds e ho c,
      case coffee_flavor_tags c of
        None \<Rightarrow> [NoTagsWarning (coffee_id c)]
      | Some tags \<Rightarrow> if tags = [] then [NoTagsWarning (coffee_id c)]
                     else if ho then
                       (case generate_openai_embedding e tags of Inl x \<Rightarrow> [] | Inr g \<Rightarrow> [PrimaryCall tags])
                     else [FallbackCall tags])"
proof (cases "coffee_flavor_tags c")
  case None
  then show ?thesis by (simp add: outcome_def update_coffee_embedding_def generation_succeeds_def)
next
  case (Some tags)
  show ?thesis
  proof (cases "tags = []")
    case True
    with Some show ?thesis
      by (simp add: outcome_def update_coffee_embedding_def generation_succeeds_def)
  next
    case False
    show ?thesis
    proof (cases ho)
      case True
      show ?thesis
      proof (cases "generate_openai_embedding e tags")
        case (Inl x)
        with Some False True show ?thesis
          by (simp add: outcome_def update_coffee_embedding_def generation_succeeds_def)
      next
        case (Inr g)
        with Some False True show ?thesis
          by (cases g)
             (auto simp: outcome_def update_coffee_embedding_def generation_succeeds_def
               Let_def dest: openai_nonempty)
      qed
    next
      case ho: False
      have "map (pattern_at (py_hash e) (unit_vector tags)) [0..<VECTOR_DIMENSIONS] \<noteq> []"
        by (simp add: VECTOR_DIMENSIONS_def)
      with Some False ho show ?thesis
        by (simp add: outcome_def update_coffee_embedding_def generation_succeeds_def
            generate_fallback_embedding_eq Let_def)
    qed
  qed
qed

lemma outcome_live_success:
  "fst (outcome e ho False c) \<Longrightarrow> generation_succeeds e ho c"
proof (cases "coffee_flavor_tags c")
  case None
  assume "fst (outcome e ho False c)"
  with None show ?thesis by (simp add: outcome_def update_coffee_embedding_def)
next
  case (Some tags)
  assume ok: "fst (outcome e ho False c)"
  show ?thesis
  proof (cases "tags = []")
    case True
    with Some ok show ?thesis by (simp add: outcome_def update_coffee_embedding_def)
  next
    case False
    show ?thesis
    proof (cases ho)
      case True
      with Some False ok show ?thesis
        by (cases "generate_openai_embedding e tags")
           (auto simp: outcome_def update_coffee_embedding_def generation_succeeds_def Let_def
             split: option.splits)
    next
      case ho: False
      with Some False show ?thesis by (simp add: generation_succeeds_def)
    qed
  qed
qed

lemma outcome_live_all_written:
  assumes "\<And>i s. rpc_execute e i s = Inr True"
  shows "fst (outcome e ho False c) = generation_succeeds e ho c"
proof (cases "coffee_flavor_tags c")
  case None
  then show ?thesis by (simp add: outcome_def update_coffee_embedding_def generation_succeeds_def)
next
  case (Some tags)
  show ?thesis
  proof (cases "tags = []")
    case True
    with Some show ?thesis
      by (simp add: outcome_def update_coffee_embedding_def generation_succeeds_def)
  next
    case False
    show ?thesis
    proof (cases ho)
      case True
      show ?thesis
      proof (cases "generate_openai_embedding e tags")
        case (Inl x)
        with Some False True show ?thesis
          by (simp add: outcome_def update_coffee_embedding_def generation_succeeds_def)
      next
        case (Inr g)
        with Some False True show ?thesis
          by (cases g)
             (auto simp: outcome_def update_coffee_embedding_def generation_succeeds_def
               Let_def assms dest: openai_nonempty)
      qed
    next
      case ho: False
      have "map (pattern_at (py_hash e) (unit_vector tags)) [0..<VECTOR_DIMENSIONS] \<noteq> []"
        by (simp add: VECTOR_DIMENSIONS_def)
      with Some False ho show ?thesis
        by (simp add: outcome_def update_coffee_embedding_def generation_succeeds_def
            generate_fallback_embedding_eq Let_def assms)
    qed
  qed
qed

lemma run_eq:
  assumes "\<And>text x. embeddings_create e text = Inl x \<Longrightarrow> is_Exception x"
    and "\<And>i s x. rpc_execute e i s = Inl x \<Longrightarrow> is_Exception x"
    and "0 < bs"
  shows "run e coffees ho bs dr =
     Some (Inr \<lparr>updated = length (filter (\<lambda>c. fst (outcome e ho dr c)) coffees),
               failed = length (filter (\<lambda>c. \<not> fst (outcome e ho dr c)) coffees),
               trace = concat (map (\<lambda>c. snd (outcome e ho dr c)) coffees)\<rparr>)"
  by (simp add: run_process_batch [OF assms(3)] process_batch_eq [OF assms(1,2)])

lemma outcome_generator_calls:
  assumes "PrimaryCall tags \<in> set (snd (outcome e ho dr c))
           \<or> FallbackCall tags \<in> set (snd (outcome e ho dr c))"
  shows "tags \<noteq> []"
proof (cases "coffee_flavor_tags c")
  case None
  with assms show ?thesis by (simp add: outcome_def update_coffee_embedding_def)
next
  case (Some ts)
  show ?thesis
  proof (cases "ts = []")
    case True
    with Some assms show ?thesis by (simp add: outcome_def update_coffee_embedding_def)
  next
    case False
    have "set (snd (outcome e ho dr c))
          \<subseteq> {PrimaryCall ts, FallbackCall ts} \<union> range (\<lambda>(i, s). RpcCall i s)"
      using Some False
      by (auto simp: outcome_def update_coffee_embedding_def Let_def
          split: option.splits sum.splits if_splits)
    with assms have "tags = ts" by auto
    with False show ?thesis by simp
  qed
qed




text \<open>
  Claim C5. When the outside calls raise nothing but exceptions of class \<open>Exception\<close>
  and the batch size is positive, the run completes whatever the records do: the failure
  counter is the number of records whose update returned \<open>False\<close>, the success counter
  the number of the others, and no generator is called with an empty tag list. Each of
  the per-record errors makes the update of its record return \<open>False\<close>: missing or
  empty tags (with the warning as the only event), a transport failure of the primary
  generator, a vector of the wrong dimension, and a persistence write that does not
  return \<open>True\<close>.
\<close>

theorem per_record_errors_isolated:
  assumes "\<And>text x. embeddings_create e text = Inl x \<Longrightarrow> is_Exception x"
    and "\<And>i s x. rpc_execute e i s = Inl x \<Longrightarrow> is_Exception x"
    and "0 < bs"
  shows "(\<exists>t. run e coffees ho bs dr = Some (Inr t)
            \<and> updated t = length (filter (\<lambda>c. fst (outcome e ho dr c)) coffees)
            \<and> failed t = length (filter (\<lambda>c. \<not> fst (outcome e ho dr c)) coffees)
            \<and> (\<forall>tags. PrimaryCall tags \<in> set (trace t) \<or> FallbackCall tags \<in> set (trace t)
                  \<longrightarrow> tags \<noteq> []))
    \<and> update_coffee_embedding e c ho dr = Some (Inr (outcome e ho dr c))
    \<and> (coffee_flavor_tags c = None \<or> coffee_flavor_tags c = Some []
          \<longrightarrow> outcome e ho dr c = (False, [NoTagsWarning (coffee_id c)]))
    \<and> (coffee_flavor_tags c = Some tags \<and> embeddings_create e (join '', '' tags) = Inl x
          \<longrightarrow> \<not> fst (outcome e True dr c))
    \<and> (coffee_flavor_tags c = Some tags \<and> embeddings_create e (join '', '' tags) = Inr v
          \<and> length v \<noteq> 1536
          \<longrightarrow> \<not> fst (outcome e True dr c))
    \<and> ((\<forall>s. rpc_execute e (coffee_id c) s \<noteq> Inr True) \<longrightarrow> \<not> fst (outcome e ho False c))"
proof (intro conjI impI)
  show "\<exists>t. run e coffees ho bs dr = Some (Inr t)
            \<and> updated t = length (filter (\<lambda>c. fst (outcome e ho dr c)) coffees)
            \<and> failed t = length (filter (\<lambda>c. \<not> fst (outcome e ho dr c)) coffees)
            \<and> (\<forall>tags. PrimaryCall tags \<in> set (trace t) \<or> FallbackCall tags \<in> set (trace t)
                  \<longrightarrow> tags \<noteq> [])"
  proof -
    let ?t = "\<lparr>updated = length (filter (\<lambda>c. fst (outcome e ho dr c)) coffees),
               failed = length (filter (\<lambda>c. \<not> fst (outcome e ho dr c)) coffees),
               trace = concat (map (\<lambda>c. snd (outcome e ho dr c)) coffees)\<rparr>"
    have r: "run e coffees ho bs dr = Some (Inr ?t)" using assms by (rule run_eq)
    have "\<forall>tags. PrimaryCall tags \<in> set (trace ?t) \<or> FallbackCall tags \<in> set (trace ?t)
            \<longrightarrow> tags \<noteq> []"
      using outcome_generator_calls [of _ e ho dr] by auto
    with r show ?thesis by (intro exI [of _ ?t]) simp
  qed
  show ret: "update_coffee_embedding e c ho dr = Some (Inr (outcome e ho dr c))"
    using assms(1,2) by (rule update_returns)
next
  assume "coffee_flavor_tags c = None \<or> coffee_flavor_tags c = Some []"
  then show "outcome e ho dr c = (False, [NoTagsWarning (coffee_id c)])"
    by (auto simp: outcome_def update_coffee_embedding_def)
next
  assume a: "coffee_flavor_tags c = Some tags \<and> embeddings_create e (join '', '' tags) = Inl x"
  then have "is_Exception x" using assms(1) by blast
  with a show "\<not> fst (outcome e True dr c)"
    by (simp add: outcome_def update_coffee_embedding_def generate_openai_embedding_def Let_def)
next
  assume a: "coffee_flavor_tags c = Some tags \<and> embeddings_create e (join '', '' tags) = Inr v
             \<and> length v \<noteq> 1536"
  then show "\<not> fst (outcome e True dr c)"
    by (simp add: outcome_def update_coffee_embedding_def generate_openai_embedding_def Let_def
        VECTOR_DIMENSIONS_def)
next
  assume a: "\<forall>s. rpc_execute e (coffee_id c) s \<noteq> Inr True"
  then show "\<not> fst (outcome e ho False c)"
    by (auto simp: outcome_def update_coffee_embedding_def Let_def
        split: option.splits sum.splits if_splits)
qed

theorem per_record_errors_isolated_witness:
  "(\<exists>t. run failing_env sample_coffees True 5 False = Some (Inr t)
        \<and> updated t = 0 \<and> failed t = 3)
   \<and> outcome failing_env True False sample_untagged = (False, [NoTagsWarning 3])
   \<and> \<not> fst (outcome sample_env True False sample_embedded_new)"
proof -
  have "coffee_flavor_tags sample_untagged = None \<or> coffee_flavor_tags sample_untagged = Some []
        \<longrightarrow> outcome failing_env True False sample_untagged
            = (False, [NoTagsWarning (coffee_id sample_untagged)])"
    by (rule per_record_errors_isolated
          [where bs = 5, THEN conjunct2, THEN conjunct2, THEN conjunct1])
       (auto simp: failing_env_def sample_env_def split: if_splits)
  then have u: "outcome failing_env True False sample_untagged = (False, [NoTagsWarning 3])"
    by (simp add: sample_untagged_def)
  have "coffee_flavor_tags sample_embedded_new = Some [''dark chocolate'']
        \<and> embeddings_create failing_env (join '', '' [''dark chocolate'']) = Inl ServiceError
        \<longrightarrow> \<not> fst (outcome failing_env True False sample_embedded_new)"
    by (rule per_record_errors_isolated
          [where bs = 5, THEN conjunct2, THEN conjunct2, THEN conjunct2, THEN conjunct1])
       (auto simp: failing_env_def sample_env_def split: if_splits)
  then have n: "\<not> fst (outcome failing_env True False sample_embedded_new)"
    by (simp add: sample_embedded_new_def failing_env_def)
  have "coffee_flavor_tags sample_embedded_old = Some [''Fruity'', ''bright'']
        \<and> embeddings_create failing_env (join '', '' [''Fruity'', ''bright'']) = Inr (replicate 7 0)
        \<and> length (replicate 7 (0::real)) \<noteq> 1536
        \<longrightarrow> \<not> fst (outcome failing_env True False sample_embedded_old)"
    by (rule per_record_errors_isolated
          [where bs = 5, THEN conjunct2, THEN conjunct2, THEN conjunct2, THEN conjunct2,
           THEN conjunct1])
       (auto simp: failing_env_def sample_env_def split: if_splits)
  then have o: "\<not> fst (outcome failing_env True False sample_embedded_old)"
    by (simp add: sample_embedded_old_def failing_env_def)
  have "\<exists>t. run failing_env sample_coffees True 5 False = Some (Inr t)
      \<and> updated t = length (filter (\<lambda>c. fst (outcome failing_env True False c)) sample_coffees)
      \<and> failed t = length (filter (\<lambda>c. \<not> fst (outcome failing_env True False c)) sample_coffees)
      \<and> (\<forall>tags. PrimaryCall tags \<in> set (trace t) \<or> FallbackCall tags \<in> set (trace t)
            \<longrightarrow> tags \<noteq> [])"
    by (rule per_record_errors_isolated [THEN conjunct1])
       (auto simp: failing_env_def sample_env_def split: if_splits)
  then have r: "\<exists>t. run failing_env sample_coffees True 5 False = Some (Inr t)
        \<and> updated t = 0 \<and> failed t = 3"
    using u n o by (auto simp: sample_coffees_def)
  have "(\<forall>s. rpc_execute sample_env (coffee_id sample_embedded_new) s \<noteq> Inr True)
        \<longrightarrow> \<not> fst (outcome sample_env True False sample_embedded_new)"
    by (rule per_record_errors_isolated
          [where bs = 5, THEN conjunct2, THEN conjunct2, THEN conjunct2, THEN conjunct2,
           THEN conjunct2])
       (simp_all add: sample_env_def)
  then have w: "\<not> fst (outcome sample_env True False sample_embedded_new)"
    by (simp add: sample_env_def)
  from r u w show ?thesis by simp
qed

text \<open>
  Claim C10. Under the same conditions the counters start at zero, the update of one
  record raises exactly one of them by one, and when the run ends their sum is the number
  of records in the work set.
\<close>

theorem counter_invariant:
  assumes "\<And>text x. embeddings_create e text = Inl x \<Longrightarrow> is_Exception x"
    and "\<And>i s x. rpc_execute e i s = Inl x \<Longrightarrow> is_Exception x"
    and "0 < bs"
  shows "(\<exists>t. run e coffees ho bs dr = Some (Inr t) \<and> updated t + failed t = length coffees)
    \<and> run e [] ho bs dr = Some (Inr \<lparr>updated = 0, failed = 0, trace = []\<rparr>)
    \<and> (\<exists>t'. process_batch e ho dr [c] t = Some (Inr t')
            \<and> (updated t' = updated t + 1 \<and> failed t' = failed t
                \<or> updated t' = updated t \<and> failed t' = failed t + 1))"
proof (intro conjI)
  show "\<exists>t. run e coffees ho bs dr = Some (Inr t) \<and> updated t + failed t = length coffees"
    by (simp add: run_eq [OF assms] sum_length_filter_compl)
  show "run e [] ho bs dr = Some (Inr \<lparr>updated = 0, failed = 0, trace = []\<rparr>)"
    by (simp add: run_eq [OF assms])
  show "\<exists>t'. process_batch e ho dr [c] t = Some (Inr t')
            \<and> (updated t' = updated t + 1 \<and> failed t' = failed t
                \<or> updated t' = updated t \<and> failed t' = failed t + 1)"
  proof -
    have "process_batch e ho dr [c] t =
       Some (Inr \<lparr>updated = updated t + length (filter (\<lambda>c. fst (outcome e ho dr c)) [c]),
                 failed = failed t + length (filter (\<lambda>c. \<not> fst (outcome e ho dr c)) [c]),
                 trace = trace t @ concat (map (\<lambda>c. snd (outcome e ho dr c)) [c])\<rparr>)"
      using assms(1,2) by (rule process_batch_eq)
    then show ?thesis by (cases "fst (outcome e ho dr c)") simp_all
  qed
qed

theorem counter_invariant_witness:
  "\<exists>t. run sample_env sample_coffees False 2 False = Some (Inr t)
      \<and> updated t + failed t = 3"
proof -
  have pos: "(0::int) < 2" by simp
  have "\<exists>t. run sample_env sample_coffees False 2 False = Some (Inr t)
      \<and> updated t + failed t = length sample_coffees"
    by (rule counter_invariant [THEN conjunct1]) (simp_all add: sample_env_def)
  moreover have "length sample_coffees = 3" by (simp add: sample_coffees_def)
  ultimately show ?thesis by (simp only:)
qed

lemma dry_run_events:
  assumes "\<And>text x. embeddings_create e text = Inl x \<Longrightarrow> is_Exception x"
  shows "snd (outcome e ho True c) =
     [case coffee_flavor_tags c of
        None \<Rightarrow> NoTagsWarning (coffee_id c)
      | Some tags \<Rightarrow>
          if tags = [] then NoTagsWarning (coffee_id c)
          else if ho then PrimaryCall tags else FallbackCall tags]"
proof (cases "coffee_flavor_tags c")
  case None
  then show ?thesis by (simp add: outcome_dry_run)
next
  case (Some tags)
  have "\<exists>g. generate_openai_embedding e tags = Inr g"
    using assms by (auto simp: generate_openai_embedding_def Let_def split: sum.splits)
  then obtain g where "generate_openai_embedding e tags = Inr g" ..
  with Some show ?thesis by (simp add: outcome_dry_run)
qed

text \<open>
  Claim C4, amended. Under the same conditions a dry run and a live run on the same
  work set both complete. The dry run still runs the generation step and nothing else:
  its trace has one event per record, in order, which is the call of the generator in use
  on the record's tags, or the warning for a record without tags, and no call of the
  update procedure. It counts exactly the records for which generation succeeds. The
  live run counts at most as many, and the same number when every persistence write
  succeeds.
\<close>

theorem dry_run_counts:
  assumes "\<And>text x. embeddings_create e text = Inl x \<Longrightarrow> is_Exception x"
    and "\<And>i s x. rpc_execute e i s = Inl x \<Longrightarrow> is_Exception x"
    and "0 < bs"
  shows "\<exists>d l. run e coffees ho bs True = Some (Inr d)
      \<and> run e coffees ho bs False = Some (Inr l)
      \<and> (\<forall>i s. RpcCall i s \<notin> set (trace d))
      \<and> trace d = map (\<lambda>c. case coffee_flavor_tags c of
                              None \<Rightarrow> NoTagsWarning (coffee_id c)
                            | Some tags \<Rightarrow>
                                if tags = [] then NoTagsWarning (coffee_id c)
                                else if ho then PrimaryCall tags else FallbackCall tags)
                    coffees
      \<and> updated d = length (filter (generation_succeeds e ho) coffees)
      \<and> updated l \<le> updated d
      \<and> ((\<forall>i s. rpc_execute e i s = Inr True) \<longrightarrow> updated l = updated d)"
proof -
  let ?d = "\<lparr>updated = length (filter (\<lambda>c. fst (outcome e ho True c)) coffees),
             failed = length (filter (\<lambda>c. \<not> fst (outcome e ho True c)) coffees),
             trace = concat (map (\<lambda>c. snd (outcome e ho True c)) coffees)\<rparr>"
  let ?l = "\<lparr>updated = length (filter (\<lambda>c. fst (outcome e ho False c)) coffees),
             failed = length (filter (\<lambda>c. \<not> fst (outcome e ho False c)) coffees),
             trace = concat (map (\<lambda>c. snd (outcome e ho False c)) coffees)\<rparr>"
  have d: "run e coffees ho bs True = Some (Inr ?d)" using assms by (rule run_eq)
  have l: "run e coffees ho bs False = Some (Inr ?l)" using assms by (rule run_eq)
  have norpc: "\<forall>i s. RpcCall i s \<notin> set (trace ?d)"
    by (auto simp: outcome_dry_run split: option.splits if_splits sum.splits)
  have tr: "trace ?d = map (\<lambda>c. case coffee_flavor_tags c of
                              None \<Rightarrow> NoTagsWarning (coffee_id c)
                            | Some tags \<Rightarrow>
                                if tags = [] then NoTagsWarning (coffee_id c)
                                else if ho then PrimaryCall tags else FallbackCall tags)
                    coffees"
    by (simp add: dry_run_events [OF assms(1)])
  have upd: "updated ?d = length (filter (generation_succeeds e ho) coffees)"
    by (simp add: outcome_dry_run)
  have "filter (\<lambda>c. fst (outcome e ho False c))
          (filter (\<lambda>c. fst (outcome e ho True c)) coffees)
        = filter (\<lambda>c. fst (outcome e ho False c)) coffees"
    unfolding filter_filter
    by (rule filter_cong [OF refl]) (auto simp: outcome_dry_run dest: outcome_live_success)
  then have "length (filter (\<lambda>c. fst (outcome e ho False c)) coffees)
        = length (filter (\<lambda>c. fst (outcome e ho False c))
                    (filter (\<lambda>c. fst (outcome e ho True c)) coffees))"
    by (simp only:)
  also have "\<dots> \<le> length (filter (\<lambda>c. fst (outcome e ho True c)) coffees)"
    by (rule length_filter_le)
  finally have le: "updated ?l \<le> updated ?d" by simp
  have eq: "(\<forall>i s. rpc_execute e i s = Inr True) \<longrightarrow> updated ?l = updated ?d"
    by (simp add: outcome_dry_run outcome_live_all_written)
  from d l norpc tr upd le eq show ?thesis by blast
qed

theorem dry_run_counts_witness:
  "\<exists>d l. run writing_env sample_coffees True 5 True = Some (Inr d)
      \<and> run writing_env sample_coffees True 5 False = Some (Inr l)
      \<and> trace d = [PrimaryCall [''Fruity'', ''bright''], PrimaryCall [''dark chocolate''],
                   NoTagsWarning 3]
      \<and> updated d = 2 \<and> updated l = 2"
proof -
  have w: "\<forall>i s. rpc_execute writing_env i s = Inr True"
    by (simp add: writing_env_def)
  have g: "generation_succeeds writing_env True sample_embedded_old"
      "generation_succeeds writing_env True sample_embedded_new"
      "\<not> generation_succeeds writing_env True sample_untagged"
    by (simp_all add: generation_succeeds_def generate_openai_embedding_def writing_env_def
        sample_env_def sample_embedded_old_def sample_embedded_new_def sample_untagged_def
        VECTOR_DIMENSIONS_def)
  have "\<exists>d l. run writing_env sample_coffees True 5 True = Some (Inr d)
      \<and> run writing_env sample_coffees True 5 False = Some (Inr l)
      \<and> (\<forall>i s. RpcCall i s \<notin> set (trace d))
      \<and> trace d = map (\<lambda>c. case coffee_flavor_tags c of
                              None \<Rightarrow> NoTagsWarning (coffee_id c)
                            | Some tags \<Rightarrow>
                                if tags = [] then NoTagsWarning (coffee_id c)
                                else if True then PrimaryCall tags else FallbackCall tags)
                    sample_coffees
      \<and> updated d = length (filter (generation_succeeds writing_env True) sample_coffees)
      \<and> updated l \<le> updated d
      \<and> ((\<forall>i s. rpc_execute writing_env i s = Inr True) \<longrightarrow> updated l = updated d)"
    by (rule dry_run_counts) (simp_all add: writing_env_def sample_env_def)
  then obtain d l where "run writing_env sample_coffees True 5 True = Some (Inr d)"
    and "run writing_env sample_coffees True 5 False = Some (Inr l)"
    and "trace d = map (\<lambda>c. case coffee_flavor_tags c of
                              None \<Rightarrow> NoTagsWarning (coffee_id c)
                            | Some tags \<Rightarrow>
                                if tags = [] then NoTagsWarning (coffee_id c)
                                else if True then PrimaryCall tags else FallbackCall tags)
                    sample_coffees"
    and "updated d = length (filter (generation_succeeds writing_env True) sample_coffees)"
    and "updated l = updated d"
    using w by blast
  moreover have "map (\<lambda>c. case coffee_flavor_tags c of
                              None \<Rightarrow> NoTagsWarning (coffee_id c)
                            | Some tags \<Rightarrow>
                                if tags = [] then NoTagsWarning (coffee_id c)
                                else if True then PrimaryCall tags else FallbackCall tags)
                    sample_coffees
      = [PrimaryCall [''Fruity'', ''bright''], PrimaryCall [''dark chocolate''],
         NoTagsWarning 3]"
    by (simp add: sample_coffees_def sample_embedded_old_def sample_embedded_new_def
        sample_untagged_def)
  ultimately show ?thesis using g by (auto simp: sample_coffees_def)
qed

text \<open>
  Claim C4, as stated, fails: where the gateway refuses every write, the dry run counts
  two updated records and the live run on the same input counts none.
\<close>

theorem dry_run_overcounts:
  "map_option (map_sum (\<lambda>x. x) updated) (run sample_env sample_coffees True 5 True) = Some (Inr 2)
   \<and> map_option (map_sum (\<lambda>x. x) updated) (run sample_env sample_coffees True 5 False) = Some (Inr 0)"
proof -
  have q: "\<And>text x. embeddings_create sample_env text = Inl x \<Longrightarrow> is_Exception x"
      "\<And>i s x. rpc_execute sample_env i s = Inl x \<Longrightarrow> is_Exception x"
    by (simp_all add: sample_env_def)
  have pos: "(0::int) < 5" by simp
  have g: "generation_succeeds sample_env True sample_embedded_old"
      "generation_succeeds sample_env True sample_embedded_new"
      "\<not> generation_succeeds sample_env True sample_untagged"
    by (simp_all add: generation_succeeds_def generate_openai_embedding_def
        sample_env_def sample_embedded_old_def sample_embedded_new_def sample_untagged_def
        VECTOR_DIMENSIONS_def)
  have o: "\<not> fst (outcome sample_env True False sample_embedded_old)"
      "\<not> fst (outcome sample_env True False sample_embedded_new)"
      "\<not> fst (outcome sample_env True False sample_untagged)"
    by (simp_all add: outcome_def update_coffee_embedding_def generate_openai_embedding_def
        sample_env_def sample_embedded_old_def sample_embedded_new_def
        sample_untagged_def VECTOR_DIMENSIONS_def)
  show ?thesis
    using g o
    by (simp add: run_eq [OF q pos] outcome_dry_run sample_coffees_def)
qed

section \<open>Exit status\<close>

text \<open>
  Claim C6, amended. The process exits with status 0 whenever \<open>main\<close> returns: after
  a completed run, when the work set is empty, which includes a catalog fetch that raises
  at startup, and when the operator declines the fallback prompt. It exits with status 1
  when a credential is missing, when the client cannot be constructed, on
  \<open>KeyboardInterrupt\<close> and on any unhandled exception.
\<close>

theorem exit_status_cases:
  "(main e a = Some (Inr r) \<longrightarrow> exit_status e a = Some 0)
   \<and> (\<not> truthy (py_or (arg_supabase_url a) (environ e ''SUPABASE_URL''))
        \<or> \<not> truthy (py_or (arg_supabase_key a) (environ e ''SUPABASE_KEY''))
        \<longrightarrow> exit_status e a = Some 1)
   \<and> (py_or (arg_supabase_url a) (environ e ''SUPABASE_URL'') = Some url
        \<and> py_or (arg_supabase_key a) (environ e ''SUPABASE_KEY'') = Some key
        \<and> create_client e url key = Some x \<and> is_Exception x
        \<longrightarrow> exit_status e a = Some 1)
   \<and> (initialize_clients e a = Inr ho \<and> coffees_table e = Inl x \<and> is_Exception x
        \<longrightarrow> main e a = Some (Inr NoCoffees) \<and> exit_status e a = Some 0)
   \<and> (initialize_clients e a = Inr False \<and> \<not> arg_force_all a
        \<and> get_coffee_data e False = Inr (c # cs)
        \<and> stdin_input e = Inr answer \<and> lower answer \<noteq> ''y''
        \<longrightarrow> main e a = Some (Inr Cancelled) \<and> exit_status e a = Some 0)
   \<and> (main e a = Some (Inl KeyboardInterrupt) \<longrightarrow> exit_status e a = Some 1)
   \<and> (main e a = Some (Inl x) \<and> is_Exception x \<longrightarrow> exit_status e a = Some 1)"
proof (intro conjI impI)
  assume "main e a = Some (Inr r)"
  then show "exit_status e a = Some 0" by (simp add: exit_status_def)
next
  assume "\<not> truthy (py_or (arg_supabase_url a) (environ e ''SUPABASE_URL''))
        \<or> \<not> truthy (py_or (arg_supabase_key a) (environ e ''SUPABASE_KEY''))"
  then have "initialize_clients e a = Inl (SystemExit 1)"
    by (auto simp: initialize_clients_def Let_def truthy_def split: option.splits)
  then show "exit_status e a = Some 1" by (simp add: exit_status_def main_def)
next
  assume "py_or (arg_supabase_url a) (environ e ''SUPABASE_URL'') = Some url
        \<and> py_or (arg_supabase_key a) (environ e ''SUPABASE_KEY'') = Some key
        \<and> create_client e url key = Some x \<and> is_Exception x"
  then have "initialize_clients e a = Inl (SystemExit 1)"
    by (auto simp: initialize_clients_def Let_def)
  then show "exit_status e a = Some 1" by (simp add: exit_status_def main_def)
next
  assume h: "initialize_clients e a = Inr ho \<and> coffees_table e = Inl x \<and> is_Exception x"
  then show m: "main e a = Some (Inr NoCoffees)"
    by (simp add: main_def get_coffee_data_def)
  then show "exit_status e a = Some 0" by (simp add: exit_status_def)
next
  assume h: "initialize_clients e a = Inr False \<and> \<not> arg_force_all a
        \<and> get_coffee_data e False = Inr (c # cs)
        \<and> stdin_input e = Inr answer \<and> lower answer \<noteq> ''y''"
  then show m: "main e a = Some (Inr Cancelled)" by (simp add: main_def)
  then show "exit_status e a = Some 0" by (simp add: exit_status_def)
next
  assume "main e a = Some (Inl KeyboardInterrupt)"
  then show "exit_status e a = Some 1" by (simp add: exit_status_def)
next
  assume "main e a = Some (Inl x) \<and> is_Exception x"
  then show "exit_status e a = Some 1" by (cases x) (simp_all add: exit_status_def)
qed

text \<open>
  Claim C6, as stated, fails twice: with the gateway unreachable at startup the process
  exits with status 0, and a cancellation exits with status 1, the status of an unhandled
  failure (here the \<open>ValueError\<close> of a zero batch size).
\<close>

theorem exit_status_not_distinct:
  "exit_status unreachable_env sample_args = Some 0
   \<and> exit_status interrupted_env sample_args = Some 1
   \<and> exit_status sample_env (sample_args\<lparr>arg_batch_size := 0\<rparr>) = Some 1"
proof (intro conjI)
  have "initialize_clients unreachable_env sample_args = Inr True"
    by (simp add: initialize_clients_def unreachable_env_def sample_env_def sample_args_def
        py_or_def truthy_def)
  then show "exit_status unreachable_env sample_args = Some 0"
    by (simp add: exit_status_def main_def get_coffee_data_def unreachable_env_def)
  have i: "initialize_clients interrupted_env sample_args = Inr True"
    by (simp add: initialize_clients_def interrupted_env_def sample_env_def sample_args_def
        py_or_def truthy_def)
  have w: "get_coffee_data interrupted_env False = Inr [sample_embedded_new, sample_untagged]"
    by (rule sample_work_set) (simp_all add: interrupted_env_def sample_env_def)
  have "range_list 0 2 5 = [0]" by (simp add: range_list.simps)
  then have b: "batches [sample_embedded_new, sample_untagged] 5
             = [[sample_embedded_new, sample_untagged]]"
    by (simp add: batches_def slice_def)
  have "update_coffee_embedding interrupted_env sample_embedded_new True False
        = Some (Inl KeyboardInterrupt)"
    by (simp add: update_coffee_embedding_def generate_openai_embedding_def interrupted_env_def
        sample_embedded_new_def)
  then have "run interrupted_env [sample_embedded_new, sample_untagged] True 5 False
             = Some (Inl KeyboardInterrupt)"
    by (simp add: run_def b)
  moreover have "arg_force_all sample_args = False" "arg_batch_size sample_args = 5"
    "arg_dry_run sample_args = False"
    by (simp_all add: sample_args_def BATCH_SIZE_def)
  ultimately show "exit_status interrupted_env sample_args = Some 1"
    by (simp add: exit_status_def main_def i w)
  have i0: "initialize_clients sample_env (sample_args\<lparr>arg_batch_size := 0\<rparr>) = Inr True"
    by (simp add: initialize_clients_def sample_env_def sample_args_def py_or_def truthy_def)
  have w0: "get_coffee_data sample_env False = Inr [sample_embedded_new, sample_untagged]"
    by (rule sample_work_set) (simp_all add: sample_env_def)
  have "arg_force_all sample_args = False" by (simp add: sample_args_def)
  then show "exit_status sample_env (sample_args\<lparr>arg_batch_size := 0\<rparr>) = Some 1"
    by (simp add: exit_status_def main_def i0 w0 run_def)
qed

theorem exit_status_cases_witness:
  "exit_status sample_env sample_args = Some 0
   \<and> exit_status sample_env (sample_args\<lparr>arg_supabase_key := None\<rparr>) = Some 1
   \<and> exit_status clientless_env sample_args = Some 1
   \<and> exit_status unreachable_env sample_args = Some 0
   \<and> exit_status declining_env (sample_args\<lparr>arg_openai_key := None\<rparr>) = Some 0
   \<and> exit_status interrupted_env sample_args = Some 1
   \<and> exit_status sample_env (sample_args\<lparr>arg_batch_size := 0\<rparr>) = Some 1"
proof (intro conjI)
  have q: "\<And>text x. embeddings_create sample_env text = Inl x \<Longrightarrow> is_Exception x"
      "\<And>i s x. rpc_execute sample_env i s = Inl x \<Longrightarrow> is_Exception x"
    by (simp_all add: sample_env_def)
  have pos: "(0::int) < 5" by simp
  have af: "arg_force_all sample_args = False" "arg_batch_size sample_args = 5"
      "arg_dry_run sample_args = False"
    by (simp_all add: sample_args_def BATCH_SIZE_def)
  have i: "initialize_clients sample_env sample_args = Inr True"
    by (simp add: initialize_clients_def sample_env_def sample_args_def py_or_def truthy_def)
  have w: "get_coffee_data sample_env False = Inr [sample_embedded_new, sample_untagged]"
    by (rule sample_work_set) (simp_all add: sample_env_def)
  have "\<exists>r. main sample_env sample_args = Some (Inr r)"
    by (simp add: main_def i w af run_eq [OF q pos])
  then obtain r where "main sample_env sample_args = Some (Inr r)" ..
  with exit_status_cases [where e = sample_env and a = sample_args and r = r]
  show "exit_status sample_env sample_args = Some 0" by blast
next
  have "\<not> truthy (py_or (arg_supabase_key (sample_args\<lparr>arg_supabase_key := None\<rparr>))
                  (environ sample_env ''SUPABASE_KEY''))"
    by (simp add: py_or_def truthy_def sample_env_def)
  with exit_status_cases [where e = sample_env and a = "sample_args\<lparr>arg_supabase_key := None\<rparr>"]
  show "exit_status sample_env (sample_args\<lparr>arg_supabase_key := None\<rparr>) = Some 1" by blast
next
  have "py_or (arg_supabase_url sample_args) (environ clientless_env ''SUPABASE_URL'')
          = Some ''https://example.supabase.co''
        \<and> py_or (arg_supabase_key sample_args) (environ clientless_env ''SUPABASE_KEY'')
          = Some ''service-key''
        \<and> create_client clientless_env ''https://example.supabase.co'' ''service-key''
          = Some ServiceError
        \<and> is_Exception ServiceError"
    by (simp add: py_or_def truthy_def sample_args_def clientless_env_def)
  with exit_status_cases [where e = clientless_env and a = sample_args
      and url = "''https://example.supabase.co''" and key = "''service-key''"
      and x = ServiceError]
  show "exit_status clientless_env sample_args = Some 1" by blast
next
  have "initialize_clients unreachable_env sample_args = Inr True
        \<and> coffees_table unreachable_env = Inl ServiceError \<and> is_Exception ServiceError"
    by (simp add: initialize_clients_def unreachable_env_def sample_env_def sample_args_def
        py_or_def truthy_def)
  with exit_status_cases [where e = unreachable_env and a = sample_args and ho = True
      and x = ServiceError]
  show "exit_status unreachable_env sample_args = Some 0" by blast
next
  let ?a = "sample_args\<lparr>arg_openai_key := None\<rparr>"
  have "get_coffee_data declining_env False = Inr (sample_embedded_new # [sample_untagged])"
    by (rule sample_work_set) (simp_all add: declining_env_def sample_env_def)
  moreover have "initialize_clients declining_env ?a = Inr False"
    by (simp add: initialize_clients_def declining_env_def sample_env_def sample_args_def
        py_or_def truthy_def)
  moreover have "\<not> arg_force_all ?a" by (simp add: sample_args_def)
  moreover have "stdin_input declining_env = Inr ''n''" by (simp add: declining_env_def)
  moreover have "lower ''n'' \<noteq> ''y''" by (simp add: lower_def lower_char_def)
  ultimately show "exit_status declining_env ?a = Some 0"
    using exit_status_cases [where e = declining_env and a = ?a and c = sample_embedded_new
        and cs = "[sample_untagged]" and answer = "''n''"]
    by blast
next
  have af: "arg_force_all sample_args = False" "arg_batch_size sample_args = 5"
      "arg_dry_run sample_args = False"
    by (simp_all add: sample_args_def BATCH_SIZE_def)
  have i: "initialize_clients interrupted_env sample_args = Inr True"
    by (simp add: initialize_clients_def interrupted_env_def sample_env_def sample_args_def
        py_or_def truthy_def)
  have w: "get_coffee_data interrupted_env False = Inr [sample_embedded_new, sample_untagged]"
    by (rule sample_work_set) (simp_all add: interrupted_env_def sample_env_def)
  have "range_list 0 2 5 = [0]" by (simp add: range_list.simps)
  then have b: "batches [sample_embedded_new, sample_untagged] 5
             = [[sample_embedded_new, sample_untagged]]"
    by (simp add: batches_def slice_def)
  have "update_coffee_embedding interrupted_env sample_embedded_new True False
        = Some (Inl KeyboardInterrupt)"
    by (simp add: update_coffee_embedding_def generate_openai_embedding_def interrupted_env_def
        sample_embedded_new_def)
  then have "run interrupted_env [sample_embedded_new, sample_untagged] True 5 False
             = Some (Inl KeyboardInterrupt)"
    by (simp add: run_def b)
  then have "main interrupted_env sample_args = Some (Inl KeyboardInterrupt)"
    by (simp add: main_def i w af)
  with exit_status_cases [where e = interrupted_env and a = sample_args]
  show "exit_status interrupted_env sample_args = Some 1" by blast
next
  let ?a = "sample_args\<lparr>arg_batch_size := 0\<rparr>"
  have i: "initialize_clients sample_env ?a = Inr True"
    by (simp add: initialize_clients_def sample_env_def sample_args_def py_or_def truthy_def)
  have w: "get_coffee_data sample_env False = Inr [sample_embedded_new, sample_untagged]"
    by (rule sample_work_set) (simp_all add: sample_env_def)
  have "arg_force_all sample_args = False" by (simp add: sample_args_def)
  then have "main sample_env ?a = Some (Inl ValueError) \<and> is_Exception ValueError"
    by (simp add: main_def i w run_def)
  with exit_status_cases [where e = sample_env and a = ?a and x = ValueError]
  show "exit_status sample_env ?a = Some 1" by blast
qed

end
